theory Spec2Isabelle
  imports Main "HOL-Library.Word"
begin

unbundle bit_operations_syntax

section \<open>Data model\<close>

text \<open>
  The allocators of the repository work on raw addresses. An address and a \<open>size_t\<close>
  are 64-bit words, so every \<open>+\<close>, \<open>-\<close> and \<open>*\<close> below wraps around exactly as the
  C++ arithmetic does. The null pointer is the address 0.

  \<open>std::bad_alloc\<close> is the only exception the allocators throw.
\<close>

type_synonym addr = "64 word"
type_synonym size_t = "64 word"
type_synonym byte = "8 word"

datatype error = OutOfMemory

subsection \<open>Byte-addressed memory\<close>

text \<open>
  The pool keeps its free list inside the blocks it manages: a free block is read as a
  \<open>FreeBlock\<close>, whose only field \<open>next\<close> is a pointer of 8 bytes at the start of the
  block. Whether two such pointers overlap depends on \<open>sizeof(T)\<close>, so the heap is a
  map from addresses to bytes. \<open>write_ptr h a v\<close> is the store \<open>((FreeBlock*)a)->next = v\<close>,
  \<open>read_ptr h a\<close> the load \<open>((FreeBlock*)a)->next\<close>; the bytes are laid out little-endian.
  The heap is total: a store outside the pool's buffer, which the C++ code does not
  check for either, is a store like any other.
\<close>

type_synonym heap = "addr \<Rightarrow> byte"

definition ptr_byte :: "addr \<Rightarrow> nat \<Rightarrow> byte" where
  "ptr_byte v i = ucast (drop_bit (8 * i) v)"

definition write_ptr :: "heap \<Rightarrow> addr \<Rightarrow> addr \<Rightarrow> heap" where
  "write_ptr h a v = (\<lambda>x. if x - a < 8 then ptr_byte v (unat (x - a)) else h x)"

definition read_ptr :: "heap \<Rightarrow> addr \<Rightarrow> addr" where
  "read_ptr h a =
     foldr (\<lambda>i acc. ucast (h (a + word_of_nat i)) OR push_bit 8 acc) [0..<8] 0"

subsection \<open>MemoryPool (Fast\_allocator\_than\_new\_and\_delete.cpp)\<close>

text \<open>
  The class \<open>MemoryPool<T>\<close> has the members \<open>m_Pool\<close>, \<open>m_FreeList\<close> and
  \<open>m_BlockCount\<close>; the state of the model adds the heap the free list lives in.
\<close>

record MemoryPool =
  heap :: heap
  m_Pool :: addr
  m_FreeList :: addr
  m_BlockCount :: size_t

text \<open>
  One iteration of the constructor's loop, for the loop index \<open>i\<close>:
  \<^verbatim>\<open>block->next = reinterpret_cast<FreeBlock*>(m_Pool + i * sizeof(T)); block = block->next;\<close>
\<close>

definition link_block :: "size_t \<Rightarrow> addr \<Rightarrow> nat \<Rightarrow> heap \<times> addr \<Rightarrow> heap \<times> addr" where
  "link_block sizeof_T pool i = (\<lambda>(h, block).
     let h' = write_ptr h block (pool + word_of_nat i * sizeof_T)
     in (h', read_ptr h' block))"

text \<open>
  The constructor \<open>MemoryPool(block_count)\<close>. \<open>sizeof_T\<close> is the template parameter's
  size, \<open>h\<close> the heap before the call and \<open>pool\<close> the address that
  \<open>new char[sizeof(T) * block_count]\<close> returned. The loop runs for
  \<open>i = 1, ..., block_count - 1\<close>; the store after the loop ends the chain.
\<close>

definition MemoryPool_ctor :: "size_t \<Rightarrow> heap \<Rightarrow> addr \<Rightarrow> size_t \<Rightarrow> MemoryPool" where
  "MemoryPool_ctor sizeof_T h pool block_count =
     (case fold (link_block sizeof_T pool) [1..<unat block_count] (h, pool) of
        (h', block) \<Rightarrow>
          \<lparr>heap = write_ptr h' block 0, m_Pool = pool, m_FreeList = pool,
           m_BlockCount = block_count\<rparr>)"

text \<open>
  \<open>Allocate\<close> throws when the free list is empty, before it changes anything; the
  model returns the outcome together with the state after the call. The load
  \<open>m_FreeList->next\<close> is a load from the total heap: the model agrees with the C++ code
  wherever the head of the free list lies in mapped memory, and says nothing about the
  fault the code takes where it does not.
\<close>

definition Allocate :: "MemoryPool \<Rightarrow> (error + addr) \<times> MemoryPool" where
  "Allocate s =
     (if m_FreeList s = 0 then (Inl OutOfMemory, s)
      else (Inr (m_FreeList s), s\<lparr>m_FreeList := read_ptr (heap s) (m_FreeList s)\<rparr>))"

text \<open>
  \<open>Deallocate\<close> pushes the block onto the free list; it does not check where the
  pointer comes from.
\<close>

definition Deallocate :: "MemoryPool \<Rightarrow> addr \<Rightarrow> MemoryPool" where
  "Deallocate s p = s\<lparr>heap := write_ptr (heap s) p (m_FreeList s), m_FreeList := p\<rparr>"

text \<open>
  \<open>k\<close> calls of \<open>Allocate\<close> in a row, as the loop of \<open>TestMemoryPool\<close> makes them,
  with the outcome of every call.
\<close>

fun Allocate_times :: "nat \<Rightarrow> MemoryPool \<Rightarrow> (error + addr) list \<times> MemoryPool" where
  "Allocate_times 0 s = ([], s)"
| "Allocate_times (Suc k) s =
     (case Allocate s of (r, s') \<Rightarrow>
        (case Allocate_times k s' of (rs, s'') \<Rightarrow> (r # rs, s'')))"

text \<open>
  The \<open>next\<close> field the constructor leaves in slot \<open>j\<close> of a pool of \<open>n\<close> slots:
  the address of slot \<open>j + 1\<close>, and the null pointer in the last slot.
\<close>

abbreviation fresh_next :: "size_t \<Rightarrow> addr \<Rightarrow> nat \<Rightarrow> nat \<Rightarrow> addr" where
  "fresh_next sz pool n j \<equiv> (if Suc j = n then 0 else pool + word_of_nat (Suc j) * sz)"

text \<open>
  A client's calls on one pool, run in order. Every \<open>Allocate\<close> contributes its
  outcome; \<open>Deallocate\<close> returns nothing.
\<close>

datatype pool_call = Call_Allocate | Call_Deallocate addr

fun MemoryPool_run ::
  "MemoryPool \<Rightarrow> pool_call list \<Rightarrow> (error + addr) list \<times> MemoryPool" where
  "MemoryPool_run s [] = ([], s)"
| "MemoryPool_run s (Call_Allocate # cs) =
     (case Allocate s of (r, s') \<Rightarrow>
        (case MemoryPool_run s' cs of (rs, s'') \<Rightarrow> (r # rs, s'')))"
| "MemoryPool_run s (Call_Deallocate p # cs) = MemoryPool_run (Deallocate s p) cs"

subsection \<open>Arena: the bump allocator without alignment\<close>

text \<open>
  \<open>memory\<close> is the address \<open>new char[size]\<close> returned. The sum \<open>offset + size\<close> of the
  bounds check is a sum of \<open>size_t\<close>.
\<close>

record Arena =
  memory :: addr
  capacity :: size_t
  offset :: size_t

definition Arena_ctor :: "addr \<Rightarrow> size_t \<Rightarrow> Arena" where
  "Arena_ctor mem sz = \<lparr>memory = mem, capacity = sz, offset = 0\<rparr>"

definition Arena_allocate :: "Arena \<Rightarrow> size_t \<Rightarrow> (error + addr) \<times> Arena" where
  "Arena_allocate s sz =
     (if offset s + sz > capacity s then (Inl OutOfMemory, s)
      else (Inr (memory s + offset s), s\<lparr>offset := offset s + sz\<rparr>))"

definition Arena_reset :: "Arena \<Rightarrow> Arena" where
  "Arena_reset s = s\<lparr>offset := 0\<rparr>"

subsection \<open>MemoryArena: the bump allocator with alignment\<close>

text \<open>
  \<open>buffer\<close> is the address \<open>::operator new(size)\<close> returned. The default argument
  \<open>alignof(std::max_align_t)\<close> of \<open>allocate\<close> is a constant of the platform; the model
  takes the alignment as an argument in every call.
\<close>

record MemoryArena =
  buffer :: addr
  capacity :: size_t
  offset :: size_t

definition MemoryArena_ctor :: "addr \<Rightarrow> size_t \<Rightarrow> MemoryArena" where
  "MemoryArena_ctor buf sz = \<lparr>buffer = buf, capacity = sz, offset = 0\<rparr>"

text \<open>The locals \<open>aligned\<close> and \<open>adjustment\<close> of \<open>MemoryArena::allocate\<close>.\<close>

definition aligned :: "MemoryArena \<Rightarrow> size_t \<Rightarrow> size_t" where
  "aligned s alignment =
     (let current = buffer s + offset s
      in (current + alignment - 1) AND NOT (alignment - 1))"

definition adjustment :: "MemoryArena \<Rightarrow> size_t \<Rightarrow> size_t" where
  "adjustment s alignment = aligned s alignment - buffer s - offset s"

definition MemoryArena_allocate ::
  "MemoryArena \<Rightarrow> size_t \<Rightarrow> size_t \<Rightarrow> (error + addr) \<times> MemoryArena" where
  "MemoryArena_allocate s sz alignment =
     (if offset s + adjustment s alignment + sz > capacity s then (Inl OutOfMemory, s)
      else (Inr (buffer s + offset s + adjustment s alignment),
            s\<lparr>offset := offset s + (adjustment s alignment + sz)\<rparr>))"

definition MemoryArena_reset :: "MemoryArena \<Rightarrow> MemoryArena" where
  "MemoryArena_reset s = s\<lparr>offset := 0\<rparr>"

text \<open>
  A client's calls on one arena, run in order. Every \<open>allocate\<close> contributes its
  outcome; \<open>reset\<close> returns nothing.
\<close>

datatype arena_call = Call_allocate size_t size_t | Call_reset

fun MemoryArena_run ::
  "MemoryArena \<Rightarrow> arena_call list \<Rightarrow> (error + addr) list \<times> MemoryArena" where
  "MemoryArena_run s [] = ([], s)"
| "MemoryArena_run s (Call_allocate sz alignment # cs) =
     (case MemoryArena_allocate s sz alignment of (r, s') \<Rightarrow>
        (case MemoryArena_run s' cs of (rs, s'') \<Rightarrow> (r # rs, s'')))"
| "MemoryArena_run s (Call_reset # cs) = MemoryArena_run (MemoryArena_reset s) cs"

section \<open>Loads and stores of pointers\<close>

text \<open>
  A pointer that was stored is loaded back unchanged, and a store does not change what
  a load of 8 bytes that do not overlap it returns.
\<close>

lemma upt8: "[0..<8] = [0,1,2,3,4,5,6,7]"
  by (simp add: upt_rec)

lemma byte_cover: "n < 64 \<Longrightarrow> (n < 8 \<or> 8 \<le> n \<and> n - 8 < 64 \<and> n - 8 < 8 \<or> 16 \<le> n \<and> n - 16 < 64 \<and> n - 16 < 8
   \<or> 24 \<le> n \<and> n - 24 < 64 \<and> n - 24 < 8 \<or> 32 \<le> n \<and> n - 32 < 64 \<and> n - 32 < 8 \<or> 40 \<le> n \<and> n - 40 < 64 \<and> n - 40 < 8
   \<or> 48 \<le> n \<and> n - 48 < 64 \<and> n - 48 < 8 \<or> 56 \<le> n \<and> n - 56 < 64 \<and> n - 56 < (8::nat))"
  by presburger

lemma read_write_same: "read_ptr (write_ptr h a v) a = v"
  unfolding read_ptr_def write_ptr_def ptr_byte_def upt8
  apply (simp)
  apply (rule bit_word_eqI)
  apply (simp add: bit_simps cong: conj_cong)
  subgoal for n
    using byte_cover[of n] by blast
  done

lemma write_ptr_other: "8 \<le> x - a \<Longrightarrow> write_ptr h a v x = h x"
  by (auto simp: write_ptr_def dest: leD)

lemma read_write_disjoint:
  assumes "8 \<le> b - a" "b - a \<le> - 8"
  shows "read_ptr (write_ptr h a v) b = read_ptr h b"
proof -
  have "8 \<le> (b + word_of_nat i) - a" if "i < 8" for i::nat
  proof -
    have 1: "unat (b - a) + i < 2 ^ 64" using assms(2) that by (simp add: word_le_nat_alt) 
    have eq: "b + word_of_nat i - a = (b - a) + word_of_nat i" by simp
    have "unat (b + word_of_nat i - a) = unat (b - a) + i"
      unfolding eq using 1 that by (simp add: unat_word_ariths unat_of_nat)
    moreover have "8 \<le> unat (b - a)" using assms(1) by (simp add: word_le_nat_alt)
    ultimately show ?thesis by (simp add: word_le_nat_alt)
  qed
  then have "write_ptr h a v (b + word_of_nat i) = h (b + word_of_nat i)" if "i < 8" for i::nat
    using that by (simp add: write_ptr_other)
  then show ?thesis
    unfolding read_ptr_def by (intro foldr_cong) simp_all
qed

lemma unat_sub64:
  fixes a b :: "64 word"
  shows "unat (b - a) = (if unat a \<le> unat b then unat b - unat a else unat b + 2 ^ 64 - unat a)"
  using unat_sub_if_size[of b a] by (simp add: word_size)

lemma read_write_far:
  assumes "unat a + 8 \<le> unat b \<or> unat b + 8 \<le> unat a"
    and "unat a + 8 \<le> 2 ^ 64" "unat b + 8 \<le> 2 ^ 64"
  shows "read_ptr (write_ptr h a v) b = read_ptr h b"
proof (rule read_write_disjoint)
  have m8: "unat (- 8 :: 64 word) = 2 ^ 64 - 8" by simp
  have "8 \<le> unat (b - a)" using assms unfolding unat_sub64 by simp arith
  then show "8 \<le> b - a" by (simp add: word_le_nat_alt)
  have "unat (b - a) \<le> 2 ^ 64 - 8" using assms unfolding unat_sub64 by simp arith
  then show "b - a \<le> - 8" unfolding word_le_nat_alt m8 .
qed

text \<open>
  The address of slot \<open>i\<close>, \<open>m_Pool + i * sizeof(T)\<close>, does not wrap around as long
  as the slot lies in the address space.
\<close>

lemma unat_slot:
  fixes pool sz :: "64 word"
  assumes "unat pool + i * unat sz < 2 ^ 64"
  shows "unat (pool + word_of_nat i * sz) = unat pool + i * unat sz"
proof -
  have lt: "i * unat sz < 2 ^ 64" using assms by linarith
  have m: "unat (word_of_nat i * sz :: 64 word) = i * unat sz"
  proof (cases "sz = 0")
    case True
    then show ?thesis by simp
  next
    case False
    then have "0 < unat sz" by (simp add: unat_gt_0)
    then have "i \<le> i * unat sz" by simp
    then have "i < 2 ^ 64" using lt by linarith
    then have u: "unat (word_of_nat i :: 64 word) = i" by (simp add: unat_of_nat)
    then have "unat (word_of_nat i :: 64 word) * unat sz < 2 ^ LENGTH(64)" using lt by simp
    then have "unat (word_of_nat i * sz) = unat (word_of_nat i :: 64 word) * unat sz"
      by (rule unat_mult_lem[THEN iffD1])
    then show ?thesis using u by simp
  qed
  have "unat pool + unat (word_of_nat i * sz :: 64 word) < 2 ^ LENGTH(64)"
    unfolding m using assms by simp
  then have "unat (pool + word_of_nat i * sz) = unat pool + unat (word_of_nat i * sz)"
    by (rule unat_add_lem[THEN iffD1])
  then show ?thesis unfolding m .
qed

section \<open>The pool\<close>

lemma slot_gap:
  fixes p s :: nat
  assumes "i < j" "j < n" "8 \<le> s" "p + n * s \<le> 2 ^ 64"
  shows "p + i * s + 8 \<le> p + j * s" and "p + j * s + 8 \<le> 2 ^ 64" and "p + i * s + 8 \<le> 2 ^ 64"
proof -
  have a: "Suc i * s \<le> j * s" using assms(1) by (intro mult_le_mono1) simp
  have b: "Suc j * s \<le> n * s" using assms(2) by (intro mult_le_mono1) simp
  show "p + i * s + 8 \<le> p + j * s" using a assms(3) by simp
  show "p + j * s + 8 \<le> 2 ^ 64" using b assms(3,4) by simp
  then show "p + i * s + 8 \<le> 2 ^ 64" using a assms(3) by simp
qed

lemma slot_lt:
  fixes p s :: nat
  assumes "j < n" "8 \<le> s" "p + n * s \<le> 2 ^ 64"
  shows "p + j * s < 2 ^ 64"
proof -
  have b: "Suc j * s \<le> n * s" using assms(1) by (intro mult_le_mono1) simp
  then show ?thesis using assms(2,3) by simp
qed

lemma read_slot_other:
  fixes pool sz :: "64 word"
  assumes "i \<noteq> j" "i < n" "j < n" "8 \<le> unat sz" "unat pool + n * unat sz \<le> 2 ^ 64"
  shows "read_ptr (write_ptr h (pool + word_of_nat i * sz) v) (pool + word_of_nat j * sz)
         = read_ptr h (pool + word_of_nat j * sz)"
proof -
  have ui: "unat (pool + word_of_nat i * sz) = unat pool + i * unat sz"
    by (rule unat_slot) (rule slot_lt[OF assms(2,4,5)])
  have uj: "unat (pool + word_of_nat j * sz) = unat pool + j * unat sz"
    by (rule unat_slot) (rule slot_lt[OF assms(3,4,5)])
  show ?thesis
  proof (cases "i < j")
    case True
    show ?thesis
      by (rule read_write_far; unfold ui uj)
         (use slot_gap[OF True assms(3,4,5)] in simp_all)
  next
    case False
    then have lt: "j < i" using assms(1) by simp
    show ?thesis
      by (rule read_write_far; unfold ui uj)
         (use slot_gap[OF lt assms(2,4,5)] in simp_all)
  qed
qed

lemma fold_link_block:
  fixes pool sz :: "64 word"
  assumes "8 \<le> unat sz" "unat pool + n * unat sz \<le> 2 ^ 64" "k < n"
  shows "\<exists>h'. fold (link_block sz pool) [1..<Suc k] (h, pool) = (h', pool + word_of_nat k * sz)
           \<and> (\<forall>j<k. read_ptr h' (pool + word_of_nat j * sz) = pool + word_of_nat (Suc j) * sz)"
  using assms(3)
proof (induction k)
  case 0
  then show ?case by simp
next
  case (Suc k)
  then obtain h' where
    f: "fold (link_block sz pool) [1..<Suc k] (h, pool) = (h', pool + word_of_nat k * sz)" and
    r: "\<And>j. j < k \<Longrightarrow> read_ptr h' (pool + word_of_nat j * sz) = pool + word_of_nat (Suc j) * sz"
    by auto
  let ?h = "write_ptr h' (pool + word_of_nat k * sz) (pool + word_of_nat (Suc k) * sz)"
  have step: "fold (link_block sz pool) [1..<Suc (Suc k)] (h, pool) = (?h, pool + word_of_nat (Suc k) * sz)"
    using f by (simp add: link_block_def read_write_same del: of_nat_Suc)
  have "read_ptr ?h (pool + word_of_nat j * sz) = pool + word_of_nat (Suc j) * sz" if "j < Suc k" for j
  proof (cases "j = k")
    case True
    then show ?thesis by (simp add: read_write_same del: of_nat_Suc)
  next
    case False
    then have jk: "j < k" using that by simp
    have "read_ptr ?h (pool + word_of_nat j * sz) = read_ptr h' (pool + word_of_nat j * sz)"
      by (rule read_slot_other[where n = n]) (use jk Suc.prems assms in simp_all)
    then show ?thesis using r[OF jk] by simp
  qed
  then show ?case using step by blast
qed


lemma slot_nonnull:
  fixes pool sz :: "64 word"
  assumes "pool \<noteq> 0" "j < n" "8 \<le> unat sz" "unat pool + n * unat sz \<le> 2 ^ 64"
  shows "pool + word_of_nat j * sz \<noteq> 0"
proof -
  have "unat (pool + word_of_nat j * sz) = unat pool + j * unat sz"
    by (rule unat_slot) (rule slot_lt[OF assms(2,3,4)])
  moreover have "0 < unat pool" using assms(1) by (simp add: unat_gt_0)
  ultimately have "unat (pool + word_of_nat j * sz) \<noteq> 0" by simp
  then show ?thesis by (simp add: unat_eq_zero)
qed

lemma MemoryPool_ctor_chain:
  fixes pool sz :: "64 word"
  assumes "8 \<le> unat sz" "unat pool + unat n * unat sz \<le> 2 ^ 64" "0 < unat n"
  shows "m_FreeList (MemoryPool_ctor sz h pool n) = pool"
    and "j < unat n \<Longrightarrow>
           read_ptr (heap (MemoryPool_ctor sz h pool n)) (pool + word_of_nat j * sz)
           = fresh_next sz pool (unat n) j"
proof -
  obtain m where m: "unat n = Suc m" using assms(3) by (cases "unat n") auto
  obtain h' where
    f: "fold (link_block sz pool) [1..<Suc m] (h, pool) = (h', pool + word_of_nat m * sz)" and
    r: "\<And>j. j < m \<Longrightarrow> read_ptr h' (pool + word_of_nat j * sz) = pool + word_of_nat (Suc j) * sz"
    using fold_link_block[OF assms(1,2), of m h] m by auto
  have hp: "heap (MemoryPool_ctor sz h pool n) = write_ptr h' (pool + word_of_nat m * sz) 0"
    using f by (simp add: MemoryPool_ctor_def m)
  show "m_FreeList (MemoryPool_ctor sz h pool n) = pool"
    by (simp add: MemoryPool_ctor_def split: prod.splits)
  show "read_ptr (heap (MemoryPool_ctor sz h pool n)) (pool + word_of_nat j * sz)
           = fresh_next sz pool (unat n) j" if "j < unat n"
  proof (cases "j = m")
    case True
    then show ?thesis unfolding hp by (simp add: read_write_same m)
  next
    case False
    then have jm: "j < m" using that m by simp
    have "read_ptr (write_ptr h' (pool + word_of_nat m * sz) 0) (pool + word_of_nat j * sz)
          = read_ptr h' (pool + word_of_nat j * sz)"
      by (rule read_slot_other[where n = "unat n"]) (use jm m assms in simp_all)
    then show ?thesis unfolding hp using r[OF jm] jm m by simp
  qed
qed

lemma Allocate_times_chain:
  fixes pool sz :: "64 word"
  assumes ok: "pool \<noteq> 0" "8 \<le> unat sz" "unat pool + n * unat sz \<le> 2 ^ 64"
    and chain: "\<And>j. j < n \<Longrightarrow> read_ptr (heap s) (pool + word_of_nat j * sz) = fresh_next sz pool n j"
    and head: "m_FreeList s = (if i = n then 0 else pool + word_of_nat i * sz)"
    and le: "i + k \<le> n"
  shows "Allocate_times k s =
           (map (\<lambda>j. Inr (pool + word_of_nat j * sz)) [i..<i + k],
            s\<lparr>m_FreeList := (if i + k = n then 0 else pool + word_of_nat (i + k) * sz)\<rparr>)"
  using chain head le
proof (induction k arbitrary: i s)
  case 0
  then show ?case by simp
next
  case (Suc k)
  have i: "i < n" using Suc.prems(3) by simp
  have nz: "pool + word_of_nat i * sz \<noteq> 0" by (rule slot_nonnull[OF ok(1) i ok(2,3)])
  let ?s' = "s\<lparr>m_FreeList := fresh_next sz pool n i\<rparr>"
  have al: "Allocate s = (Inr (pool + word_of_nat i * sz), ?s')"
    using Suc.prems(1)[OF i] Suc.prems(2) i nz by (simp add: Allocate_def)
  have rest: "Allocate_times k ?s' =
           (map (\<lambda>j. Inr (pool + word_of_nat j * sz)) [Suc i..<Suc i + k],
            ?s'\<lparr>m_FreeList := (if Suc i + k = n then 0 else pool + word_of_nat (Suc i + k) * sz)\<rparr>)"
    by (rule Suc.IH) (use Suc.prems in simp_all)
  have upt: "[i..<i + Suc k] = i # [Suc i..<Suc i + k]" by (simp add: upt_conv_Cons)
  show ?case unfolding upt using al rest by (simp del: of_nat_Suc of_nat_add)
qed


lemma fresh_pool_Allocate_times:
  fixes pool sizeof_T block_count :: "64 word"
  assumes "8 \<le> unat sizeof_T" "pool \<noteq> 0" "0 < unat block_count"
    and "unat pool + unat block_count * unat sizeof_T \<le> 2 ^ 64"
  shows "Allocate_times (unat block_count) (MemoryPool_ctor sizeof_T h pool block_count) =
           (map (\<lambda>i. Inr (pool + word_of_nat i * sizeof_T)) [0..<unat block_count],
            (MemoryPool_ctor sizeof_T h pool block_count)\<lparr>m_FreeList := 0\<rparr>)"
proof -
  let ?s = "MemoryPool_ctor sizeof_T h pool block_count"
  have "Allocate_times (unat block_count) ?s =
           (map (\<lambda>j. Inr (pool + word_of_nat j * sizeof_T)) [0..<0 + unat block_count],
            ?s\<lparr>m_FreeList := (if 0 + unat block_count = unat block_count then 0
                               else pool + word_of_nat (0 + unat block_count) * sizeof_T)\<rparr>)"
  proof (rule Allocate_times_chain[OF assms(2,1,4)])
    show "read_ptr (heap ?s) (pool + word_of_nat j * sizeof_T)
            = fresh_next sizeof_T pool (unat block_count) j" if "j < unat block_count" for j
      by (rule MemoryPool_ctor_chain(2)[OF assms(1,4,3) that])
    show "m_FreeList ?s = (if 0 = unat block_count then 0 else pool + word_of_nat 0 * sizeof_T)"
      using MemoryPool_ctor_chain(1)[OF assms(1,4,3)] assms(3) by simp
    show "0 + unat block_count \<le> unat block_count" by simp
  qed
  then show ?thesis by simp
qed

lemma slots_distinct:
  fixes pool sz :: "64 word"
  assumes "8 \<le> unat sz" "unat pool + n * unat sz \<le> 2 ^ 64"
  shows "distinct (map (\<lambda>i. pool + word_of_nat i * sz) [0..<n])"
proof -
  have "inj_on (\<lambda>i. pool + word_of_nat i * sz) (set [0..<n])"
  proof (rule inj_onI)
    fix i j assume ij: "i \<in> set [0..<n]" "j \<in> set [0..<n]"
      and eq: "pool + word_of_nat i * sz = pool + word_of_nat j * sz"
    have ui: "unat (pool + word_of_nat i * sz) = unat pool + i * unat sz"
      by (rule unat_slot) (rule slot_lt[OF _ assms], use ij in simp)
    have uj: "unat (pool + word_of_nat j * sz) = unat pool + j * unat sz"
      by (rule unat_slot) (rule slot_lt[OF _ assms], use ij in simp)
    have "unat pool + i * unat sz = unat pool + j * unat sz"
      using arg_cong[OF eq, of unat] unfolding ui uj .
    then show "i = j" using assms(1) by simp
  qed
  then show ?thesis by (simp add: distinct_map)
qed


text \<open>
  Exhaustion of a pool of at least one block: after the \<open>block_count\<close> successful
  calls the next one throws.
\<close>

lemma Allocate_times_Suc_last:
  "Allocate_times (Suc k) s =
     (fst (Allocate_times k s) @ [fst (Allocate (snd (Allocate_times k s)))],
      snd (Allocate (snd (Allocate_times k s))))"
proof (induction k arbitrary: s)
  case 0
  then show ?case by (simp split: prod.splits)
next
  case (Suc k)
  show ?case
    by (subst Allocate_times.simps(2), subst Suc.IH) (simp split: prod.splits)
qed

lemma fresh_pool_exhaustion:
  fixes pool sizeof_T block_count :: "64 word"
  assumes "8 \<le> unat sizeof_T" "pool \<noteq> 0" "0 < unat block_count"
    and "unat pool + unat block_count * unat sizeof_T \<le> 2 ^ 64"
  shows "fst (Allocate_times (Suc (unat block_count)) (MemoryPool_ctor sizeof_T h pool block_count))
         = map (\<lambda>i. Inr (pool + word_of_nat i * sizeof_T)) [0..<unat block_count]
           @ [Inl OutOfMemory]"
  unfolding Allocate_times_Suc_last fresh_pool_Allocate_times[OF assms]
  by (simp add: Allocate_def)

text \<open>
  Claim C6, as amended. On a pool constructed with at least one block, for an element
  type of at least the size of a pointer (8 bytes), whose storage of
  \<open>block_count * sizeof(T)\<close> bytes starts at a non-null address and lies inside the
  address space: \<open>block_count\<close> calls of \<open>Allocate\<close> in a row all succeed, call
  \<open>i\<close> (counted from 0) returns \<open>m_Pool + i * sizeof(T)\<close>, and the free list is empty
  afterwards; the returned addresses are pairwise distinct and each lies in
  \<open>[m_Pool, m_Pool + block_count * sizeof(T))\<close>.
\<close>

theorem fresh_pool_allocation_order:
  fixes pool sizeof_T block_count :: "64 word"
  assumes "8 \<le> unat sizeof_T" "pool \<noteq> 0" "0 < unat block_count"
    and "unat pool + unat block_count * unat sizeof_T \<le> 2 ^ 64"
  shows "fst (Allocate_times (unat block_count) (MemoryPool_ctor sizeof_T h pool block_count)) =
           map (\<lambda>i. Inr (pool + word_of_nat i * sizeof_T)) [0..<unat block_count]
     \<and> m_FreeList (snd (Allocate_times (unat block_count)
           (MemoryPool_ctor sizeof_T h pool block_count))) = 0
     \<and> distinct (map (\<lambda>i. pool + word_of_nat i * sizeof_T) [0..<unat block_count])
     \<and> (\<forall>i<unat block_count.
           unat pool \<le> unat (pool + word_of_nat i * sizeof_T) \<and>
           unat (pool + word_of_nat i * sizeof_T) < unat pool + unat block_count * unat sizeof_T)"
proof (intro conjI allI impI)
  note run = fresh_pool_Allocate_times[OF assms, of h]
  show "fst (Allocate_times (unat block_count) (MemoryPool_ctor sizeof_T h pool block_count)) =
           map (\<lambda>i. Inr (pool + word_of_nat i * sizeof_T)) [0..<unat block_count]"
    unfolding run by simp
  show "m_FreeList (snd (Allocate_times (unat block_count)
           (MemoryPool_ctor sizeof_T h pool block_count))) = 0"
    unfolding run by simp
  show "distinct (map (\<lambda>i. pool + word_of_nat i * sizeof_T) [0..<unat block_count])"
    by (rule slots_distinct[OF assms(1,4)])
next
  fix i assume i: "i < unat block_count"
  have u: "unat (pool + word_of_nat i * sizeof_T) = unat pool + i * unat sizeof_T"
    by (rule unat_slot) (rule slot_lt[OF i assms(1,4)])
  show "unat pool \<le> unat (pool + word_of_nat i * sizeof_T)" unfolding u by simp
  have "Suc i * unat sizeof_T \<le> unat block_count * unat sizeof_T"
    using i by (intro mult_le_mono1) simp
  then have "i * unat sizeof_T + unat sizeof_T \<le> unat block_count * unat sizeof_T"
    by (simp add: add.commute)
  then show "unat (pool + word_of_nat i * sizeof_T) < unat pool + unat block_count * unat sizeof_T"
    unfolding u using assms(1) by linarith
qed

theorem fresh_pool_allocation_order_witness:
  "8 \<le> unat (64 :: 64 word) \<and> (4096 :: 64 word) \<noteq> 0 \<and> 0 < unat (3 :: 64 word)
   \<and> unat (4096 :: 64 word) + unat (3 :: 64 word) * unat (64 :: 64 word) \<le> 2 ^ 64
   \<and> fst (Allocate_times 3 (MemoryPool_ctor 64 (\<lambda>_. 0) 4096 3)) = [Inr 4096, Inr 4160, Inr 4224]
   \<and> m_FreeList (snd (Allocate_times 3 (MemoryPool_ctor 64 (\<lambda>_. 0) 4096 3))) = 0
   \<and> distinct [4096, 4160, 4224 :: 64 word]"
  using fresh_pool_allocation_order [of 64 4096 3 "\<lambda>_. 0"]
  by (simp add: upt_rec)

text \<open>
  Claim C6 as stated puts no condition on the element type. For \<open>sizeof(T) = 1\<close> the
  \<open>next\<close> fields of neighbouring slots overlap: the store that ends the chain in slot 1
  overwrites seven of the eight bytes of the pointer kept in slot 0. After the
  construction of a pool of two such slots at \<open>0x1000\<close> the \<open>next\<close> field of slot 0 holds
  the address 1 and not \<open>m_Pool + 1\<close>, so the first \<open>Allocate\<close>, which returns slot 0,
  leaves 1 as the head of the free list: the free list does not thread the slots.
\<close>

theorem small_element_breaks_free_list:
  "read_ptr (heap (MemoryPool_ctor 1 (\<lambda>_. 0) 4096 2)) 4096 = 1
   \<and> Allocate (MemoryPool_ctor 1 (\<lambda>_. 0) 4096 2) =
       (Inr 4096, (MemoryPool_ctor 1 (\<lambda>_. 0) 4096 2)\<lparr>m_FreeList := 1\<rparr>)
   \<and> (1 :: 64 word) \<noteq> 4096 + word_of_nat 1 * 1"
proof -
  have r: "read_ptr (heap (MemoryPool_ctor 1 (\<lambda>_. 0) 4096 2)) 4096 = 1"
    by code_simp
  have h: "m_FreeList (MemoryPool_ctor 1 (\<lambda>_. 0) 4096 2) = 4096"
    by (simp add: MemoryPool_ctor_def split: prod.splits)
  show ?thesis using r h by (simp add: Allocate_def)
qed

text \<open>
  Claim C1 says that on a pool of \<open>n\<close> blocks the call number \<open>n + 1\<close> fails, for
  every \<open>n\<close>. For \<open>n \<ge> 1\<close> this is \<open>fresh_pool_exhaustion\<close> above. For \<open>n = 0\<close> the
  constructor still makes \<open>m_Pool\<close> the head of the free list and stores a null
  \<open>next\<close> into it, so the first call of \<open>Allocate\<close> succeeds and hands out the start
  of a buffer of no bytes.
\<close>

theorem Allocate_on_pool_of_no_blocks:
  "fst (Allocate (MemoryPool_ctor 64 (\<lambda>_. 0) 4096 0)) = Inr 4096"
  by code_simp

text \<open>
  Claim C3. In every state of the pool, for a pointer \<open>p\<close> that an earlier call of
  \<open>Allocate\<close> returned: the call of \<open>Allocate\<close> that follows \<open>Deallocate(p)\<close>
  succeeds and returns \<open>p\<close> itself, and it leaves the free list as it was before the
  \<open>Deallocate\<close> (the head is the old head again; the only change is the \<open>next\<close>
  field written into the block \<open>p\<close>).
\<close>

theorem Deallocate_then_Allocate:
  assumes "Allocate s0 = (Inr p, s1)"
  shows "Allocate (Deallocate s p) =
           (Inr p, s\<lparr>heap := write_ptr (heap s) p (m_FreeList s)\<rparr>)"
proof -
  have "p \<noteq> 0" using assms by (auto simp: Allocate_def split: if_splits)
  then show ?thesis by (simp add: Allocate_def Deallocate_def read_write_same)
qed

theorem Deallocate_then_Allocate_witness:
  "Allocate (MemoryPool_ctor 64 (\<lambda>_. 0) 4096 3) =
     (Inr 4096, snd (Allocate (MemoryPool_ctor 64 (\<lambda>_. 0) 4096 3)))
   \<and> fst (Allocate (Deallocate (snd (Allocate (MemoryPool_ctor 64 (\<lambda>_. 0) 4096 3))) 4096)) = Inr 4096"
proof -
  have h: "Allocate (MemoryPool_ctor 64 (\<lambda>_. 0) 4096 3) =
     (Inr 4096, snd (Allocate (MemoryPool_ctor 64 (\<lambda>_. 0) 4096 3)))"
    by (simp add: Allocate_def MemoryPool_ctor_def split: prod.splits)
  show ?thesis
    using h Deallocate_then_Allocate [OF h, of "snd (Allocate (MemoryPool_ctor 64 (\<lambda>_. 0) 4096 3))"]
    by simp
qed

section \<open>The arena\<close>

text \<open>
  For \<open>alignment = 2 ^ k\<close> the mask \<open>alignment - 1\<close> is \<open>mask k\<close>, and \<open>adjustment\<close> is
  the least padding that makes \<open>buffer + offset + adjustment\<close> a multiple of
  \<open>alignment\<close>.
\<close>

lemma and_not_mask_sub:
  fixes x :: "64 word"
  shows "x AND NOT (mask k) = x - (x AND mask k)"
  by (metis (no_types, lifting) and.commute bit.conj_xor_distrib2
    diff_0_right disjunctive_and_not_eq_xor disjunctive_diff_eq_and_not
    word_and_not word_bw_lcs(1) word_not_not)

lemma unat_and_mask64:
  fixes x :: "64 word"
  shows "unat (x AND mask k) = unat x mod 2 ^ k"
  by (metis take_bit_eq_mask take_bit_eq_mod unsigned_take_bit_eq)

lemma unat_mask64:
  assumes "k < 64"
  shows "unat (mask k :: 64 word) = 2 ^ k - 1"
proof -
  have "unat (mask k :: 64 word) = nat (uint (mask k :: 64 word))" by simp
  also have "\<dots> = nat (mask k)" using assms by (simp add: uint_mask_eq min_def)
  also have "\<dots> = 2 ^ k - 1" by (simp add: mask_eq_exp_minus_1 nat_diff_distrib' nat_power_eq)
  finally show ?thesis .
qed

lemma and_mask_le_mask:
  fixes x :: "64 word"
  shows "x AND mask k \<le> mask k"
  by (simp add: word_and_le1)

text \<open>
  Rounding up on natural numbers: for \<open>A > 0\<close> the number
  \<open>(A - 1) - (c + A - 1) mod A\<close> is the least \<open>p\<close> for which \<open>A\<close> divides \<open>c + p\<close>.
\<close>

lemma padding_nat:
  fixes c A :: nat
  assumes A: "0 < A"
  defines "p \<equiv> (A - 1) - (c + A - 1) mod A"
  shows "p < A" and "A dvd c + p" and "\<And>d. A dvd c + d \<Longrightarrow> p \<le> d"
proof -
  let ?q = "(c + A - 1) mod A"
  let ?t = "(c + A - 1) div A"
  have q: "?q \<le> A - 1" using A mod_less_divisor[of A "c + A - 1"] by linarith
  show "p < A" unfolding p_def using A by linarith
  have split: "c + A - 1 = A * ?t + ?q" by simp
  have cp: "c + p = A * ?t"
    unfolding p_def using q split A by linarith
  then show "A dvd c + p" by simp
  show "p \<le> d" if ad: "A dvd c + d" for d
  proof (rule ccontr)
    assume "\<not> p \<le> d"
    then have dp: "d < p" by simp
    obtain m where m: "c + d = A * m" using ad by (auto simp: dvd_def)
    have "A * m < A * ?t" using dp cp m by linarith
    then have mt: "m < ?t" using A by simp
    have "c + p < c + A" using \<open>p < A\<close> by simp
    then have "A * ?t < A * m + A" using m cp by linarith
    then have "A * ?t < A * Suc m" by simp
    then have "?t < Suc m" using A by (simp only: mult_less_cancel1)
    then show False using mt by simp
  qed
qed


lemma unat_sum3_mod:
  fixes a b m :: "64 word"
  assumes "k \<le> 64"
  shows "unat (a + b + m) mod 2 ^ k = (unat a + unat b + unat m) mod 2 ^ k"
proof -
  have d: "(2::nat) ^ k dvd 2 ^ 64" using assms by (rule le_imp_power_dvd)
  have "unat (a + b + m) = (unat a + unat b + unat m) mod 2 ^ 64"
    by (simp add: unat_word_ariths mod_simps)
  then show ?thesis using d by (simp add: mod_mod_cancel)
qed

lemma adjustment_eq:
  assumes "k < 64"
  shows "adjustment s (2 ^ k) = mask k - ((buffer s + offset s + mask k) AND mask k)"
proof -
  have m: "(2 ^ k - 1 :: 64 word) = mask k" by (simp add: mask_eq_decr_exp)
  have x: "buffer s + offset s + 2 ^ k - 1 = buffer s + offset s + mask k"
    by (simp add: mask_eq_decr_exp)
  show ?thesis
    unfolding adjustment_def aligned_def Let_def x m and_not_mask_sub by simp
qed

lemma adjustment_unat:
  assumes "k < 64"
  shows "unat (adjustment s (2 ^ k)) =
           (2 ^ k - 1) - (unat (buffer s) + unat (offset s) + 2 ^ k - 1) mod 2 ^ k"
proof -
  let ?y = "(buffer s + offset s + mask k) AND mask k"
  have le: "?y \<le> mask k" by (rule and_mask_le_mask)
  have "unat (mask k - ?y) = unat (mask k :: 64 word) - unat ?y" using le by (rule unat_sub)
  also have "unat ?y = (unat (buffer s) + unat (offset s) + unat (mask k :: 64 word)) mod 2 ^ k"
    unfolding unat_and_mask64 using assms by (intro unat_sum3_mod) simp
  finally show ?thesis
    unfolding adjustment_eq[OF assms] unat_mask64[OF assms]
    by (simp add: Nat.add_diff_assoc)
qed


lemma adjustment_props:
  assumes "k < 64"
  shows adjustment_lt: "unat (adjustment s (2 ^ k)) < 2 ^ k"
    and adjustment_dvd:
      "2 ^ k dvd unat (buffer s) + unat (offset s) + unat (adjustment s (2 ^ k))"
    and adjustment_least:
      "\<And>d. 2 ^ k dvd unat (buffer s) + unat (offset s) + d \<Longrightarrow>
         unat (adjustment s (2 ^ k)) \<le> d"
  unfolding adjustment_unat[OF assms]
  using padding_nat[of "2 ^ k" "unat (buffer s) + unat (offset s)"] by simp_all

lemma allocate_pointer_aligned:
  "buffer s + offset s + adjustment s alignment = aligned s alignment"
  by (simp add: adjustment_def)

lemma allocate_pointer_dvd:
  assumes "k < 64"
  shows "2 ^ k dvd unat (buffer s + offset s + adjustment s (2 ^ k))"
proof -
  have d: "(2::nat) ^ k dvd 2 ^ 64" using assms by (intro le_imp_power_dvd) simp
  have "unat (buffer s + offset s + adjustment s (2 ^ k)) =
          (unat (buffer s) + unat (offset s) + unat (adjustment s (2 ^ k))) mod 2 ^ 64"
    by (simp add: unat_word_ariths mod_simps)
  then show ?thesis using d adjustment_dvd[OF assms, of s] by (simp add: dvd_mod)
qed

lemma allocate_cases:
  "MemoryArena_allocate s sz al = (Inr p, s') \<longleftrightarrow>
     offset s + adjustment s al + sz \<le> capacity s \<and>
     p = buffer s + offset s + adjustment s al \<and>
     s' = s\<lparr>offset := offset s + (adjustment s al + sz)\<rparr>"
  by (auto simp: MemoryArena_allocate_def not_less)

lemma allocate_fails:
  "fst (MemoryArena_allocate s sz al) = Inl OutOfMemory \<longleftrightarrow>
     capacity s < offset s + adjustment s al + sz"
  by (simp add: MemoryArena_allocate_def)

lemma unat_sum3:
  fixes a b c :: "64 word"
  assumes "unat a + unat b + unat c < 2 ^ 64"
  shows "unat (a + b + c) = unat a + unat b + unat c"
proof -
  have "unat (a + b + c) = (unat a + unat b + unat c) mod 2 ^ 64"
    by (simp add: unat_word_ariths mod_simps)
  then show ?thesis using assms by simp
qed


lemma unat_lt64: "unat (q :: 64 word) < 2 ^ 64"
  using unsigned_less[of q, where ?'a = nat] by simp

lemma unat_exp64:
  assumes "k < 64"
  shows "unat (2 ^ k :: 64 word) = 2 ^ k"
proof -
  have "(2 ^ k :: 64 word) = word_of_nat (2 ^ k)" by simp
  then have "unat (2 ^ k :: 64 word) = 2 ^ k mod 2 ^ 64" by (simp only: unat_of_nat) simp
  moreover have "(2::nat) ^ k < 2 ^ 64" using assms by (intro power_strict_increasing) simp_all
  ultimately show ?thesis by simp
qed

lemma dvd_current_iff:
  fixes a b :: "64 word"
  assumes "k < 64"
  shows "2 ^ k dvd unat (a + b) + d \<longleftrightarrow> 2 ^ k dvd unat a + unat b + d"
proof -
  have dv: "(2::nat) ^ k dvd 2 ^ 64" using assms by (intro le_imp_power_dvd) simp
  have "unat (a + b) = (unat a + unat b) mod 2 ^ 64" by (simp add: unat_word_ariths)
  then have "unat (a + b) mod 2 ^ k = (unat a + unat b) mod 2 ^ k"
    using dv by (simp add: mod_mod_cancel)
  then have "(unat (a + b) + d) mod 2 ^ k = (unat a + unat b + d) mod 2 ^ k"
    by (rule mod_add_cong) simp
  then show ?thesis by (simp add: dvd_eq_mod_eq_0)
qed

text \<open>
  Claim C2. For every successful call \<open>allocate(size, alignment)\<close> with \<open>alignment\<close> a
  power of two: the returned address is a multiple of \<open>alignment\<close>; it is the value
  of \<open>(current + alignment - 1) & ~(alignment - 1)\<close> for \<open>current = buffer + offset\<close>;
  and whenever the address space holds a multiple of \<open>alignment\<close> at or after
  \<open>current\<close> at all, the returned address is the smallest of them.
\<close>

theorem allocate_returns_least_aligned_address:
  assumes "alignment = 2 ^ k" and "k < 64"
    and "MemoryArena_allocate s sz alignment = (Inr p, s')"
  shows "unat alignment dvd unat p
     \<and> p = (buffer s + offset s + alignment - 1) AND NOT (alignment - 1)
     \<and> ((\<exists>q. buffer s + offset s \<le> q \<and> unat alignment dvd unat q) \<longrightarrow>
          buffer s + offset s \<le> p \<and>
          (\<forall>q. buffer s + offset s \<le> q \<and> unat alignment dvd unat q \<longrightarrow> p \<le> q))"
proof -
  let ?c = "buffer s + offset s"
  let ?adj = "adjustment s (2 ^ k)"
  have ua: "unat alignment = 2 ^ k" using assms(1) unat_exp64[OF assms(2)] by simp
  have p: "p = ?c + ?adj" using assms(1,3) by (simp add: allocate_cases)
  have least: "unat ?c + unat ?adj \<le> unat q" if "?c \<le> q" "2 ^ k dvd unat q" for q
  proof -
    have cq: "unat ?c \<le> unat q" using that(1) by (simp add: word_le_nat_alt)
    then have "2 ^ k dvd unat ?c + (unat q - unat ?c)" using that(2) by simp
    then have "2 ^ k dvd unat (buffer s) + unat (offset s) + (unat q - unat ?c)"
      by (simp only: dvd_current_iff[OF assms(2)])
    then have "unat ?adj \<le> unat q - unat ?c" by (rule adjustment_least[OF assms(2)])
    then show ?thesis using cq by simp
  qed
  have exact: "unat p = unat ?c + unat ?adj" if "?c \<le> q" "2 ^ k dvd unat q" for q
  proof -
    have "unat ?c + unat ?adj < 2 ^ LENGTH(64)"
      using least[OF that] unat_lt64[of q] by simp
    then show ?thesis unfolding p by (rule unat_add_lem[THEN iffD1])
  qed
  have 1: "unat alignment dvd unat p"
    unfolding ua p using allocate_pointer_dvd[OF assms(2)] .
  have 2: "p = (buffer s + offset s + alignment - 1) AND NOT (alignment - 1)"
    unfolding p allocate_pointer_aligned by (simp add: aligned_def assms(1))
  have 3: "?c \<le> p \<and> (\<forall>q. ?c \<le> q \<and> unat alignment dvd unat q \<longrightarrow> p \<le> q)"
    if ex: "\<exists>q. ?c \<le> q \<and> unat alignment dvd unat q"
  proof -
    obtain q0 where q0: "?c \<le> q0" "2 ^ k dvd unat q0" using ex ua by auto
    have e: "unat p = unat ?c + unat ?adj" by (rule exact[OF q0])
    have "?c \<le> p" using e by (simp add: word_le_nat_alt)
    moreover have "p \<le> q" if "?c \<le> q" "unat alignment dvd unat q" for q
      using least[of q] that e ua by (simp add: word_le_nat_alt)
    ultimately show ?thesis by blast
  qed
  show ?thesis using 1 2 3 by blast
qed


theorem allocate_returns_least_aligned_address_witness:
  "(8 :: 64 word) = 2 ^ 3 \<and> (3 :: nat) < 64
   \<and> MemoryArena_allocate (MemoryArena_ctor 4097 64) 8 8 =
        (Inr 4104, \<lparr>buffer = 4097, capacity = 64, offset = 15\<rparr>)
   \<and> unat (8 :: 64 word) dvd unat (4104 :: 64 word)
   \<and> buffer (MemoryArena_ctor 4097 64) + offset (MemoryArena_ctor 4097 64) \<le> 4104"
proof -
  let ?s = "MemoryArena_ctor 4097 64"
  have a: "(8 :: 64 word) = 2 ^ 3" by simp
  have k: "(3 :: nat) < 64" by simp
  have h: "MemoryArena_allocate ?s 8 8 =
        (Inr 4104, \<lparr>buffer = 4097, capacity = 64, offset = 15\<rparr>)"
    by (simp add: MemoryArena_allocate_def MemoryArena_ctor_def adjustment_def aligned_def)
  have ex: "\<exists>q. buffer ?s + offset ?s \<le> q \<and> unat (8 :: 64 word) dvd unat q"
    by (rule exI[of _ 4104]) (simp add: MemoryArena_ctor_def)
  note t = allocate_returns_least_aligned_address [OF a k h]
  have 1: "unat (8 :: 64 word) dvd unat (4104 :: 64 word)" using t by (rule conjunct1)
  have 2: "buffer ?s + offset ?s \<le> 4104" using t ex by blast
  show ?thesis using a k h 1 2 by (intro conjI)
qed

text \<open>
  A successful call whose sum \<open>offset + adjustment + size\<close> does not overflow
  \<open>size_t\<close>, read on natural numbers.
\<close>

lemma allocate_nat:
  assumes ok: "MemoryArena_allocate s sz al = (Inr p, s')"
    and nov: "unat (offset s) + unat (adjustment s al) + unat sz < 2 ^ 64"
  shows "unat (offset s) + unat (adjustment s al) + unat sz \<le> unat (capacity s)"
    and "unat (offset s') = unat (offset s) + unat (adjustment s al) + unat sz"
    and "unat (buffer s) + unat (capacity s) < 2 ^ 64 \<Longrightarrow>
           unat p = unat (buffer s) + unat (offset s) + unat (adjustment s al)"
proof -
  have sum: "unat (offset s + adjustment s al + sz) =
               unat (offset s) + unat (adjustment s al) + unat sz"
    by (rule unat_sum3[OF nov])
  have "offset s + adjustment s al + sz \<le> capacity s" using ok by (simp add: allocate_cases)
  then show le: "unat (offset s) + unat (adjustment s al) + unat sz \<le> unat (capacity s)"
    unfolding word_le_nat_alt sum .
  have "offset s' = offset s + adjustment s al + sz"
    using ok by (simp add: allocate_cases add.assoc)
  then show "unat (offset s') = unat (offset s) + unat (adjustment s al) + unat sz"
    using sum by simp
  show "unat p = unat (buffer s) + unat (offset s) + unat (adjustment s al)"
    if "unat (buffer s) + unat (capacity s) < 2 ^ 64"
  proof -
    have "unat (buffer s) + unat (offset s) + unat (adjustment s al) < 2 ^ 64"
      using le that by simp
    then have "unat (buffer s + offset s + adjustment s al) =
                 unat (buffer s) + unat (offset s) + unat (adjustment s al)"
      by (rule unat_sum3)
    then show ?thesis using ok by (simp add: allocate_cases)
  qed
qed

lemma successive_allocations_ordered:
  assumes "MemoryArena_allocate s sz1 al1 = (Inr p1, s1)"
    and "MemoryArena_allocate s1 sz2 al2 = (Inr p2, s2)"
    and "unat (offset s) + unat (adjustment s al1) + unat sz1 < 2 ^ 64"
    and "unat (offset s1) + unat (adjustment s1 al2) + unat sz2 < 2 ^ 64"
    and "unat (buffer s) + unat (capacity s) < 2 ^ 64"
  shows "unat p1 + unat sz1 + unat (adjustment s1 al2) = unat p2"
proof -
  have s1: "buffer s1 = buffer s" "capacity s1 = capacity s"
    using assms(1) by (simp_all add: allocate_cases)
  have p1: "unat p1 = unat (buffer s) + unat (offset s) + unat (adjustment s al1)"
    by (rule allocate_nat(3)[OF assms(1,3,5)])
  have o1: "unat (offset s1) = unat (offset s) + unat (adjustment s al1) + unat sz1"
    by (rule allocate_nat(2)[OF assms(1,3)])
  have "unat p2 = unat (buffer s1) + unat (offset s1) + unat (adjustment s1 al2)"
    by (rule allocate_nat(3)[OF assms(2,4)]) (use s1 assms(5) in simp)
  then show ?thesis unfolding p1 o1 s1 by simp
qed

lemma run_allocate_snd:
  "snd (MemoryArena_run s (Call_allocate sz al # cs)) =
     snd (MemoryArena_run (snd (MemoryArena_allocate s sz al)) cs)"
  by (simp split: prod.splits)

lemma run_invariant:
  assumes "offset s \<le> capacity s"
  shows "offset (snd (MemoryArena_run s calls)) \<le> capacity s
       \<and> capacity (snd (MemoryArena_run s calls)) = capacity s
       \<and> buffer (snd (MemoryArena_run s calls)) = buffer s"
  using assms
proof (induction calls arbitrary: s)
  case Nil
  then show ?case by simp
next
  case (Cons c calls)
  show ?case
  proof (cases c)
    case (Call_allocate sz al)
    let ?s' = "snd (MemoryArena_allocate s sz al)"
    have c: "capacity ?s' = capacity s" and b: "buffer ?s' = buffer s"
      by (simp_all add: MemoryArena_allocate_def)
    have "offset ?s' \<le> capacity s"
      using Cons.prems by (simp add: MemoryArena_allocate_def not_less add.assoc)
    then have "offset ?s' \<le> capacity ?s'" using c by simp
    then show ?thesis
      unfolding Call_allocate run_allocate_snd using Cons.IH[of ?s'] c b by simp
  next
    case Call_reset
    have "offset (MemoryArena_reset s) \<le> capacity (MemoryArena_reset s)"
      by (simp add: MemoryArena_reset_def)
    then show ?thesis
      using Cons.IH[of "MemoryArena_reset s"] Call_reset by (simp add: MemoryArena_reset_def)
  qed
qed


lemma adjustment_one: "adjustment s 1 = 0"
  by (simp add: adjustment_def aligned_def)

text \<open>
  The capacity boundary. On a fresh arena of capacity 64, at any buffer address,
  \<open>allocate(64, 1)\<close> succeeds and returns the buffer's base address, and
  \<open>allocate(65, 1)\<close> throws. As long as the sum \<open>offset + adjustment + size\<close> does not
  overflow \<open>size_t\<close>, \<open>allocate\<close> throws exactly when the sum exceeds \<open>capacity\<close>. No
  call changes \<open>capacity\<close> or \<open>buffer\<close>. The same holds for \<open>Arena\<close>, the allocator
  without alignment.
\<close>

lemma arena_capacity_boundary:
  "MemoryArena_allocate (MemoryArena_ctor buf 64) 64 1 =
     (Inr buf, \<lparr>buffer = buf, capacity = 64, offset = 64\<rparr>)
   \<and> MemoryArena_allocate (MemoryArena_ctor buf 64) 65 1 =
     (Inl OutOfMemory, MemoryArena_ctor buf 64)
   \<and> (unat (offset s) + unat (adjustment s al) + unat sz < 2 ^ 64 \<longrightarrow>
        (fst (MemoryArena_allocate s sz al) = Inl OutOfMemory \<longleftrightarrow>
         unat (capacity s) < unat (offset s) + unat (adjustment s al) + unat sz))
   \<and> capacity (snd (MemoryArena_allocate s sz al)) = capacity s
   \<and> buffer (snd (MemoryArena_allocate s sz al)) = buffer s
   \<and> capacity (MemoryArena_reset s) = capacity s
   \<and> buffer (MemoryArena_reset s) = buffer s
   \<and> Arena_allocate (Arena_ctor buf 64) 64 =
     (Inr buf, \<lparr>memory = buf, capacity = 64, offset = 64\<rparr>)
   \<and> Arena_allocate (Arena_ctor buf 64) 65 = (Inl OutOfMemory, Arena_ctor buf 64)
   \<and> (unat (Arena.offset r) + unat sz < 2 ^ 64 \<longrightarrow>
        (fst (Arena_allocate r sz) = Inl OutOfMemory \<longleftrightarrow>
         unat (Arena.capacity r) < unat (Arena.offset r) + unat sz))
   \<and> Arena.capacity (snd (Arena_allocate r sz)) = Arena.capacity r
   \<and> memory (snd (Arena_allocate r sz)) = memory r"
proof (intro conjI impI)
  show "MemoryArena_allocate (MemoryArena_ctor buf 64) 64 1 =
     (Inr buf, \<lparr>buffer = buf, capacity = 64, offset = 64\<rparr>)"
    by (simp add: MemoryArena_allocate_def adjustment_one) (simp add: MemoryArena_ctor_def)
  show "MemoryArena_allocate (MemoryArena_ctor buf 64) 65 1 =
     (Inl OutOfMemory, MemoryArena_ctor buf 64)"
    by (simp add: MemoryArena_allocate_def adjustment_one) (simp add: MemoryArena_ctor_def)
  show "fst (MemoryArena_allocate s sz al) = Inl OutOfMemory \<longleftrightarrow>
         unat (capacity s) < unat (offset s) + unat (adjustment s al) + unat sz"
    if "unat (offset s) + unat (adjustment s al) + unat sz < 2 ^ 64"
    unfolding allocate_fails word_less_nat_alt unat_sum3[OF that] ..
  show "capacity (snd (MemoryArena_allocate s sz al)) = capacity s"
    and "buffer (snd (MemoryArena_allocate s sz al)) = buffer s"
    by (simp_all add: MemoryArena_allocate_def)
  show "capacity (MemoryArena_reset s) = capacity s"
    and "buffer (MemoryArena_reset s) = buffer s"
    by (simp_all add: MemoryArena_reset_def)
  show "Arena_allocate (Arena_ctor buf 64) 64 =
     (Inr buf, \<lparr>memory = buf, capacity = 64, offset = 64\<rparr>)"
    and "Arena_allocate (Arena_ctor buf 64) 65 = (Inl OutOfMemory, Arena_ctor buf 64)"
    by (simp_all add: Arena_allocate_def Arena_ctor_def)
  show "fst (Arena_allocate r sz) = Inl OutOfMemory \<longleftrightarrow>
         unat (Arena.capacity r) < unat (Arena.offset r) + unat sz"
    if "unat (Arena.offset r) + unat sz < 2 ^ 64"
  proof -
    have "unat (Arena.offset r) + unat sz < 2 ^ LENGTH(64)" using that by simp
    then have "unat (Arena.offset r + sz) = unat (Arena.offset r) + unat sz"
      by (rule unat_add_lem[THEN iffD1])
    then show ?thesis by (simp add: Arena_allocate_def word_less_nat_alt)
  qed
  show "Arena.capacity (snd (Arena_allocate r sz)) = Arena.capacity r"
    and "memory (snd (Arena_allocate r sz)) = memory r"
    by (simp_all add: Arena_allocate_def)
qed

text \<open>
  Claim C4 says that \<open>allocate\<close> throws exactly when \<open>offset + adjustment + size\<close>
  exceeds \<open>capacity\<close>. The concrete boundary of the claim and the general rule for sums
  that fit in \<open>size_t\<close> are \<open>arena_capacity_boundary\<close> above. The check adds in
  \<open>size_t\<close>, though. On a fresh arena of capacity 64 whose buffer is at \<open>0x1010\<close>, a
  request of \<open>2^64 - 16\<close> bytes at alignment 32 has the adjustment 16; the three numbers
  add up to \<open>2^64\<close>, far above the capacity, but the sum of the code is 0 and the call
  succeeds: it returns \<open>0x1020\<close> and leaves \<open>offset\<close> at 0. With 8 bytes in use,
  \<open>allocate(2^64 - 8, 1)\<close> succeeds in the same way.
\<close>

theorem oversized_request_passes_bounds_check:
  "MemoryArena_allocate (MemoryArena_ctor 4112 64) 18446744073709551600 32
     = (Inr 4128, \<lparr>buffer = 4112, capacity = 64, offset = 0\<rparr>)
   \<and> unat (adjustment (MemoryArena_ctor 4112 64) 32) = 16
   \<and> unat (capacity (MemoryArena_ctor 4112 64))
       < unat (offset (MemoryArena_ctor 4112 64)) + unat (adjustment (MemoryArena_ctor 4112 64) 32)
         + unat (18446744073709551600 :: 64 word)
   \<and> MemoryArena_allocate \<lparr>buffer = 4096, capacity = 64, offset = 8\<rparr> 18446744073709551608 1
     = (Inr 4104, \<lparr>buffer = 4096, capacity = 64, offset = 0\<rparr>)
   \<and> unat (64 :: 64 word) < unat (8 :: 64 word) + unat (18446744073709551608 :: 64 word)"
  by (simp add: MemoryArena_allocate_def adjustment_def aligned_def MemoryArena_ctor_def)

text \<open>
  Claim C10. A call of \<open>Allocate\<close> on the pool, or of \<open>allocate\<close> on either arena,
  that throws leaves the state exactly as it was: the head of the free list and the
  heap the chain lives in, or the offset, are unchanged. So the calls that follow have
  the outcomes they would have had without the failed call.
\<close>

theorem failed_allocation_changes_nothing:
  "(fst (Allocate s) = Inl OutOfMemory \<longrightarrow>
      snd (Allocate s) = s \<and>
      MemoryPool_run s (Call_Allocate # cs) =
        (Inl OutOfMemory # fst (MemoryPool_run s cs), snd (MemoryPool_run s cs)))
   \<and> (fst (MemoryArena_allocate a sz al) = Inl OutOfMemory \<longrightarrow>
      snd (MemoryArena_allocate a sz al) = a \<and>
      MemoryArena_run a (Call_allocate sz al # calls) =
        (Inl OutOfMemory # fst (MemoryArena_run a calls), snd (MemoryArena_run a calls)))
   \<and> (fst (Arena_allocate r n) = Inl OutOfMemory \<longrightarrow> snd (Arena_allocate r n) = r)"
proof (intro conjI impI)
  assume f: "fst (Allocate s) = Inl OutOfMemory"
  then have e: "Allocate s = (Inl OutOfMemory, s)"
    by (simp add: Allocate_def split: if_splits)
  show "snd (Allocate s) = s" using e by simp
  show "MemoryPool_run s (Call_Allocate # cs) =
        (Inl OutOfMemory # fst (MemoryPool_run s cs), snd (MemoryPool_run s cs))"
    using e by (simp split: prod.splits)
next
  assume f: "fst (MemoryArena_allocate a sz al) = Inl OutOfMemory"
  then have e: "MemoryArena_allocate a sz al = (Inl OutOfMemory, a)"
    by (simp add: MemoryArena_allocate_def split: if_splits)
  show "snd (MemoryArena_allocate a sz al) = a" using e by simp
  show "MemoryArena_run a (Call_allocate sz al # calls) =
        (Inl OutOfMemory # fst (MemoryArena_run a calls), snd (MemoryArena_run a calls))"
    using e by (simp split: prod.splits)
next
  assume "fst (Arena_allocate r n) = Inl OutOfMemory"
  then show "snd (Arena_allocate r n) = r"
    by (simp add: Arena_allocate_def split: if_splits)
qed


theorem failed_allocation_changes_nothing_witness:
  "fst (Allocate \<lparr>heap = \<lambda>_. 0, m_Pool = 4096, m_FreeList = 0, m_BlockCount = 1\<rparr>)
     = Inl OutOfMemory
   \<and> snd (Allocate \<lparr>heap = \<lambda>_. 0, m_Pool = 4096, m_FreeList = 0, m_BlockCount = 1\<rparr>)
     = \<lparr>heap = \<lambda>_. 0, m_Pool = 4096, m_FreeList = 0, m_BlockCount = 1\<rparr>
   \<and> fst (MemoryArena_allocate (MemoryArena_ctor 4096 64) 65 1) = Inl OutOfMemory
   \<and> snd (MemoryArena_allocate (MemoryArena_ctor 4096 64) 65 1) = MemoryArena_ctor 4096 64
   \<and> fst (Arena_allocate (Arena_ctor 4096 64) 65) = Inl OutOfMemory
   \<and> snd (Arena_allocate (Arena_ctor 4096 64) 65) = Arena_ctor 4096 64"
proof -
  let ?s = "\<lparr>heap = \<lambda>_. 0, m_Pool = 4096, m_FreeList = 0, m_BlockCount = 1\<rparr>"
  have 1: "fst (Allocate ?s) = Inl OutOfMemory" by (simp add: Allocate_def)
  have 2: "fst (MemoryArena_allocate (MemoryArena_ctor 4096 64) 65 1) = Inl OutOfMemory"
    by (simp add: MemoryArena_allocate_def adjustment_one) (simp add: MemoryArena_ctor_def)
  have 3: "fst (Arena_allocate (Arena_ctor 4096 64) 65) = Inl OutOfMemory"
    by (simp add: Arena_allocate_def Arena_ctor_def)
  show ?thesis
    using 1 2 3
      failed_allocation_changes_nothing
        [of ?s "[]" "MemoryArena_ctor 4096 64" 65 1 "[]" "Arena_ctor 4096 64" 65]
    by blast
qed


text \<open>
  Claim C5, as amended. In every state reached from construction by calls of
  \<open>allocate\<close> and \<open>reset\<close>, \<open>offset \<le> capacity\<close> holds (and \<open>buffer\<close> and \<open>capacity\<close> are
  those of the construction). For a successful \<open>allocate\<close> in such a state whose sum
  \<open>offset + adjustment + size\<close> does not overflow \<open>size_t\<close>, on a buffer that ends
  inside the address space, the returned pointer lies in the closed range
  \<open>[buffer, buffer + capacity]\<close>, and in \<open>[buffer, buffer + capacity)\<close> when \<open>size\<close> is
  not 0. A pointer returned for an alignment that is a power of two is a multiple of
  it.
\<close>

theorem arena_offset_and_pointer_bounds:
  fixes buf cap :: "64 word" and calls :: "arena_call list"
  defines "s \<equiv> snd (MemoryArena_run (MemoryArena_ctor buf cap) calls)"
  shows "offset s \<le> capacity s \<and> capacity s = cap \<and> buffer s = buf
     \<and> (MemoryArena_allocate s sz al = (Inr p, s')
          \<and> unat (offset s) + unat (adjustment s al) + unat sz < 2 ^ 64
          \<and> unat buf + unat cap < 2 ^ 64 \<longrightarrow>
        unat buf \<le> unat p \<and> unat p \<le> unat buf + unat cap
        \<and> (sz \<noteq> 0 \<longrightarrow> unat p < unat buf + unat cap))
     \<and> (MemoryArena_allocate s sz (2 ^ k) = (Inr p, s') \<and> k < 64 \<longrightarrow> 2 ^ k dvd unat p)"
proof -
  have inv: "offset s \<le> capacity s" "capacity s = cap" "buffer s = buf"
    using run_invariant[of "MemoryArena_ctor buf cap" calls]
    by (simp_all add: s_def MemoryArena_ctor_def)
  have range: "unat buf \<le> unat p \<and> unat p \<le> unat buf + unat cap
        \<and> (sz \<noteq> 0 \<longrightarrow> unat p < unat buf + unat cap)"
    if ok: "MemoryArena_allocate s sz al = (Inr p, s')"
      and nov: "unat (offset s) + unat (adjustment s al) + unat sz < 2 ^ 64"
      and fit: "unat buf + unat cap < 2 ^ 64"
  proof -
    have le: "unat (offset s) + unat (adjustment s al) + unat sz \<le> unat cap"
      using allocate_nat(1)[OF ok nov] inv(2) by simp
    have p: "unat p = unat buf + unat (offset s) + unat (adjustment s al)"
      using allocate_nat(3)[OF ok nov] fit inv(2,3) by simp
    have "0 < unat sz" if "sz \<noteq> 0" using that by (simp add: unat_gt_0)
    then show ?thesis using le p by auto
  qed
  have al: "2 ^ k dvd unat p" if "MemoryArena_allocate s sz (2 ^ k) = (Inr p, s')" "k < 64"
    using that allocate_pointer_dvd[of k s] by (simp add: allocate_cases)
  show ?thesis using inv range al by blast
qed

theorem arena_offset_and_pointer_bounds_witness:
  "MemoryArena_allocate (snd (MemoryArena_run (MemoryArena_ctor 4096 64) [Call_allocate 8 1])) 8 (2 ^ 3)
     = (Inr 4104, \<lparr>buffer = 4096, capacity = 64, offset = 16\<rparr>)
   \<and> unat (4096 :: 64 word) + unat (64 :: 64 word) < 2 ^ 64
   \<and> (3 :: nat) < 64 \<and> (8 :: 64 word) \<noteq> 0
   \<and> offset (snd (MemoryArena_run (MemoryArena_ctor 4096 64) [Call_allocate 8 1])) \<le> 64
   \<and> unat (4096 :: 64 word) \<le> unat (4104 :: 64 word)
   \<and> unat (4104 :: 64 word) < unat (4096 :: 64 word) + unat (64 :: 64 word)
   \<and> (2 :: nat) ^ 3 dvd unat (4104 :: 64 word)"
proof -
  let ?s = "snd (MemoryArena_run (MemoryArena_ctor 4096 64) [Call_allocate 8 1])"
  have s: "?s = \<lparr>buffer = 4096, capacity = 64, offset = 8\<rparr>"
    by (simp add: MemoryArena_allocate_def adjustment_one) (simp add: MemoryArena_ctor_def)
  have h: "MemoryArena_allocate ?s 8 (2 ^ 3) = (Inr 4104, \<lparr>buffer = 4096, capacity = 64, offset = 16\<rparr>)"
    unfolding s by (simp add: MemoryArena_allocate_def adjustment_def aligned_def)
  have n: "unat (offset ?s) + unat (adjustment ?s (2 ^ 3)) + unat (8 :: 64 word) < 2 ^ 64"
    unfolding s by (simp add: adjustment_def aligned_def)
  have f: "unat (4096 :: 64 word) + unat (64 :: 64 word) < 2 ^ 64" by simp
  have k: "(3 :: nat) < 64" and z: "(8 :: 64 word) \<noteq> 0" by simp_all
  note t = arena_offset_and_pointer_bounds
    [of 4096 64 "[Call_allocate 8 1]" 8 "2 ^ 3" 4104 "\<lparr>buffer = 4096, capacity = 64, offset = 16\<rparr>" 3]
  from t have i: "offset ?s \<le> capacity ?s" and c: "capacity ?s = 64" by blast+
  from t h n f z have r: "unat (4096 :: 64 word) \<le> unat (4104 :: 64 word)"
    "unat (4104 :: 64 word) < unat (4096 :: 64 word) + unat (64 :: 64 word)" by blast+
  from t h k have d: "(2 :: nat) ^ 3 dvd unat (4104 :: 64 word)" by blast
  from i c have i': "offset ?s \<le> 64" by simp
  show ?thesis using h f k z i' r d by (intro conjI)
qed

text \<open>
  Claim C5 as stated puts every returned pointer in the half-open range. On an arena
  of capacity 64 that is full, \<open>allocate(0, 1)\<close> succeeds and returns
  \<open>buffer + capacity\<close>, the address one past the end of the buffer.
\<close>

theorem zero_size_allocation_at_end_of_buffer:
  "fst (MemoryArena_run (MemoryArena_ctor 4096 64) [Call_allocate 64 1, Call_allocate 0 1])
     = [Inr 4096, Inr 4160]
   \<and> \<not> unat (4160 :: 64 word) < unat (4096 :: 64 word) + unat (64 :: 64 word)"
  by (simp add: MemoryArena_allocate_def adjustment_one) (simp add: MemoryArena_ctor_def)

text \<open>
  Claim C7 says that the addresses of successive successful allocations never
  decrease. This is \<open>successive_allocations_ordered\<close> above as long as the sums
  \<open>offset + adjustment + size\<close> do not overflow \<open>size_t\<close>. The bounds check adds in
  \<open>size_t\<close>, though: on an arena of capacity 64 with 8 bytes in use, a request of
  \<open>2^64 - 8\<close> bytes makes the sum wrap around to 0, the check passes, the call
  returns \<open>buffer + 8\<close> and sets \<open>offset\<close> back to 0, and the next allocation returns
  \<open>buffer\<close> again, below the address before it. \<open>Arena::allocate\<close> does the same.
\<close>

theorem huge_size_allocation_wraps_offset:
  "fst (MemoryArena_run (MemoryArena_ctor 4096 64)
          [Call_allocate 8 1, Call_allocate 18446744073709551608 1, Call_allocate 8 1])
     = [Inr 4096, Inr 4104, Inr 4096]
   \<and> Arena_allocate (Arena_ctor 4096 64) 8
       = (Inr 4096, \<lparr>memory = 4096, capacity = 64, offset = 8\<rparr>)
   \<and> Arena_allocate \<lparr>memory = 4096, capacity = 64, offset = 8\<rparr> 18446744073709551608
       = (Inr 4104, \<lparr>memory = 4096, capacity = 64, offset = 0\<rparr>)
   \<and> Arena_allocate \<lparr>memory = 4096, capacity = 64, offset = 0\<rparr> 8
       = (Inr 4096, \<lparr>memory = 4096, capacity = 64, offset = 8\<rparr>)"
  by (simp add: MemoryArena_allocate_def adjustment_one Arena_allocate_def Arena_ctor_def)
     (simp add: MemoryArena_ctor_def)


text \<open>
  After \<open>reset\<close> the arena is in the state the constructor left it in, and a request
  that succeeded anywhere in the arena without overflow fits at offset 0 as well: the
  padding at the base is at most the old offset plus the old padding.
\<close>

lemma reset_is_fresh: "MemoryArena_reset t = MemoryArena_ctor (buffer t) (capacity t)"
  by (simp add: MemoryArena_reset_def MemoryArena_ctor_def)

lemma allocate_fresh_succeeds:
  assumes k: "k < 64"
    and ok: "MemoryArena_allocate s sz (2 ^ k) = (Inr p, s')"
    and nov: "unat (offset s) + unat (adjustment s (2 ^ k)) + unat sz < 2 ^ 64"
  shows "fst (MemoryArena_allocate (MemoryArena_ctor (buffer s) (capacity s)) sz (2 ^ k)) =
           Inr (aligned (MemoryArena_ctor (buffer s) (capacity s)) (2 ^ k))"
proof -
  let ?f = "MemoryArena_ctor (buffer s) (capacity s)"
  have f: "buffer ?f = buffer s" "capacity ?f = capacity s" "offset ?f = 0"
    by (simp_all add: MemoryArena_ctor_def)
  have le: "unat (offset s) + unat (adjustment s (2 ^ k)) + unat sz \<le> unat (capacity s)"
    by (rule allocate_nat(1)[OF ok nov])
  have "2 ^ k dvd unat (buffer ?f) + unat (offset ?f)
          + (unat (offset s) + unat (adjustment s (2 ^ k)))"
    using adjustment_dvd[OF k, of s] by (simp add: f add.assoc)
  then have pad: "unat (adjustment ?f (2 ^ k)) \<le> unat (offset s) + unat (adjustment s (2 ^ k))"
    by (rule adjustment_least[OF k])
  have small: "unat (offset ?f) + unat (adjustment ?f (2 ^ k)) + unat sz < 2 ^ 64"
    using pad nov by (simp add: f)
  have "unat (offset ?f + adjustment ?f (2 ^ k) + sz) \<le> unat (capacity ?f)"
    unfolding unat_sum3[OF small] using pad le by (simp add: f)
  then have "offset ?f + adjustment ?f (2 ^ k) + sz \<le> capacity ?f"
    by (simp add: word_le_nat_alt)
  then have "fst (MemoryArena_allocate ?f sz (2 ^ k))
               = Inr (buffer ?f + offset ?f + adjustment ?f (2 ^ k))"
    by (simp add: MemoryArena_allocate_def not_less[symmetric])
  then show ?thesis by (simp only: allocate_pointer_aligned)
qed

text \<open>
  Claim C8, as amended. \<open>reset\<close> at offset 0 changes nothing. After \<open>reset\<close> in any
  state of the arena, \<open>allocate(size, alignment)\<close> for a size and a power-of-two
  alignment that succeeded before (with a sum \<open>offset + adjustment + size\<close> that did
  not overflow \<open>size_t\<close>) succeeds again, and returns the buffer's base rounded up to
  \<open>alignment\<close>: the address that the first allocation on the fresh arena returned if
  that one asked for the same alignment.
\<close>

theorem reset_then_allocate:
  "(offset t = 0 \<longrightarrow> MemoryArena_reset t = t)
   \<and> (k < 64 \<and> MemoryArena_allocate s sz (2 ^ k) = (Inr p, s')
        \<and> unat (offset s) + unat (adjustment s (2 ^ k)) + unat sz < 2 ^ 64
        \<and> buffer t = buffer s \<and> capacity t = capacity s \<longrightarrow>
      fst (MemoryArena_allocate (MemoryArena_reset t) sz (2 ^ k))
        = Inr (aligned (MemoryArena_ctor (buffer s) (capacity s)) (2 ^ k))
      \<and> (MemoryArena_allocate (MemoryArena_ctor (buffer s) (capacity s)) sz1 (2 ^ k)
             = (Inr p1, s1) \<longrightarrow>
           fst (MemoryArena_allocate (MemoryArena_reset t) sz (2 ^ k)) = Inr p1))"
proof (intro conjI impI; (elim conjE)?)
  assume "offset t = 0"
  then show "MemoryArena_reset t = t" by (simp add: MemoryArena_reset_def)
next
  assume a: "k < 64" "MemoryArena_allocate s sz (2 ^ k) = (Inr p, s')"
    "unat (offset s) + unat (adjustment s (2 ^ k)) + unat sz < 2 ^ 64"
    "buffer t = buffer s" "capacity t = capacity s"
  show "fst (MemoryArena_allocate (MemoryArena_reset t) sz (2 ^ k))
        = Inr (aligned (MemoryArena_ctor (buffer s) (capacity s)) (2 ^ k))"
    unfolding reset_is_fresh a(4,5) by (rule allocate_fresh_succeeds[OF a(1,2,3)])
next
  assume a: "k < 64" "MemoryArena_allocate s sz (2 ^ k) = (Inr p, s')"
    "unat (offset s) + unat (adjustment s (2 ^ k)) + unat sz < 2 ^ 64"
    "buffer t = buffer s" "capacity t = capacity s"
    and first: "MemoryArena_allocate (MemoryArena_ctor (buffer s) (capacity s)) sz1 (2 ^ k)
             = (Inr p1, s1)"
  have "p1 = aligned (MemoryArena_ctor (buffer s) (capacity s)) (2 ^ k)"
    using first by (simp add: allocate_cases allocate_pointer_aligned)
  then show "fst (MemoryArena_allocate (MemoryArena_reset t) sz (2 ^ k)) = Inr p1"
    unfolding reset_is_fresh a(4,5) using allocate_fresh_succeeds[OF a(1,2,3)] by simp
qed

text \<open>
  Claim C8 as stated promises the address of the arena's first allocation whatever
  the alignments were. On a buffer at \<open>0x1010\<close> the first allocation, with alignment
  1, returns \<open>0x1010\<close>; \<open>allocate(8, 32)\<close> succeeds before the \<open>reset\<close> and after it, and
  after it returns \<open>0x1020\<close>.
\<close>

theorem reset_then_allocate_other_alignment:
  "fst (MemoryArena_run (MemoryArena_ctor 4112 64)
          [Call_allocate 8 1, Call_allocate 8 32, Call_reset, Call_allocate 8 32])
     = [Inr 4112, Inr 4128, Inr 4128]
   \<and> (4128 :: 64 word) \<noteq> 4112"
  by (simp add: MemoryArena_allocate_def MemoryArena_reset_def adjustment_def aligned_def
        MemoryArena_ctor_def)


theorem reset_then_allocate_witness:
  "offset (MemoryArena_ctor 4112 64) = 0
   \<and> MemoryArena_reset (MemoryArena_ctor 4112 64) = MemoryArena_ctor 4112 64
   \<and> (5 :: nat) < 64
   \<and> MemoryArena_allocate \<lparr>buffer = 4112, capacity = 64, offset = 8\<rparr> 8 (2 ^ 5)
       = (Inr 4128, \<lparr>buffer = 4112, capacity = 64, offset = 24\<rparr>)
   \<and> MemoryArena_allocate (MemoryArena_ctor 4112 64) 16 (2 ^ 5)
       = (Inr 4128, \<lparr>buffer = 4112, capacity = 64, offset = 32\<rparr>)
   \<and> fst (MemoryArena_allocate
            (MemoryArena_reset \<lparr>buffer = 4112, capacity = 64, offset = 24\<rparr>) 8 (2 ^ 5))
       = Inr 4128"
proof -
  let ?s = "\<lparr>buffer = 4112, capacity = 64, offset = 8\<rparr>"
  let ?t = "\<lparr>buffer = 4112, capacity = 64, offset = 24\<rparr>"
  let ?u = "\<lparr>buffer = 4112, capacity = 64, offset = 32\<rparr>"
  have z: "offset (MemoryArena_ctor 4112 64) = 0" by (simp add: MemoryArena_ctor_def)
  have k: "(5 :: nat) < 64" by simp
  have h: "MemoryArena_allocate ?s 8 (2 ^ 5) = (Inr 4128, ?t)"
    by (simp add: MemoryArena_allocate_def adjustment_def aligned_def)
  have n: "unat (offset ?s) + unat (adjustment ?s (2 ^ 5)) + unat (8 :: 64 word) < 2 ^ 64"
    by (simp add: adjustment_def aligned_def)
  have b: "buffer ?t = buffer ?s" "capacity ?t = capacity ?s" by simp_all
  have f: "MemoryArena_allocate (MemoryArena_ctor (buffer ?s) (capacity ?s)) 16 (2 ^ 5)
             = (Inr 4128, ?u)"
    by (simp add: MemoryArena_allocate_def adjustment_def aligned_def MemoryArena_ctor_def)
  from z reset_then_allocate [of "MemoryArena_ctor 4112 64"]
  have 1: "MemoryArena_reset (MemoryArena_ctor 4112 64) = MemoryArena_ctor 4112 64" by blast
  from k h n b f reset_then_allocate [of ?t 5 ?s 8 4128 ?t 16 4128 ?u]
  have 2: "fst (MemoryArena_allocate (MemoryArena_reset ?t) 8 (2 ^ 5)) = Inr 4128" by blast
  have f': "MemoryArena_allocate (MemoryArena_ctor 4112 64) 16 (2 ^ 5) = (Inr 4128, ?u)"
    using f by simp
  show ?thesis using z 1 k h f' 2 by (intro conjI)
qed

text \<open>The invariant of \<open>Arena\<close>, the allocator without alignment.\<close>

lemma Arena_offset_invariant:
  assumes "Arena.offset r \<le> Arena.capacity r"
  shows "Arena.offset (snd (Arena_allocate r n)) \<le> Arena.capacity (snd (Arena_allocate r n))"
    and "Arena.offset (Arena_reset r) \<le> Arena.capacity (Arena_reset r)"
  using assms by (simp_all add: Arena_allocate_def Arena_reset_def not_less)


end
